theory Spec2Isabelle
  imports Main "HOL-Library.Word"
begin

section \<open>Machine types of \<^verbatim>\<open>socket.hpp\<close>\<close>

text \<open>
  \<^verbatim>\<open>int\<close> is a 32-bit word read as two's complement (\<open><=s\<close>, \<open><s\<close>, \<open>sint\<close>),
  \<^verbatim>\<open>size_t\<close> a 64-bit word, \<^verbatim>\<open>uint16_t\<close> a 16-bit word and \<^verbatim>\<open>char\<close> a byte.
  A \<^verbatim>\<open>char *\<close> argument is modelled by the bytes stored from the pointed-to address
  onwards, so that \<^verbatim>\<open>buffer + off\<close> is \<open>drop (unat off) buffer\<close>.
\<close>

type_synonym byte = "8 word"
type_synonym cint = "32 word"
type_synonym size_t = "64 word"
type_synonym uint16_t = "16 word"

section \<open>The operating system as seen by the code\<close>

datatype shut_how = SHUT_RD | SHUT_WR | SHUT_RDWR

text \<open>
  The calls that leave the process, in the order they complete. The last argument of
  \<open>EvSend\<close>, \<open>EvRecv\<close>, \<open>EvConnect\<close> and \<open>EvAccept\<close> is the value the call returned.
  \<open>EvFilebufOpen\<close> is the construction of the \<^verbatim>\<open>__gnu_cxx::stdio_filebuf\<close> of a stream,
  \<open>EvFilebufDtor\<close> the entry into its destructor, and \<open>EvWrite\<close> a write of that many
  bytes of buffered output to a descriptor.
\<close>

datatype event =
    EvSend cint size_t cint
  | EvRecv cint size_t cint
  | EvShutdown cint shut_how
  | EvClose cint
  | EvResolve string
  | EvConnect cint "32 word" uint16_t cint
  | EvAccept cint cint
  | EvFilebufOpen cint
  | EvFilebufDtor "cint option"
  | EvWrite cint nat

text \<open>
  The environment is a script: \<open>replies\<close> holds, for the successive calls whose result
  the code reads, the value returned and the value of \<^verbatim>\<open>errno\<close> after the call. A call
  made when the script is exhausted never returns. \<open>hosts\<close> is the resolver
  (\<^verbatim>\<open>gethostbyname\<close>: the first address, if any, and the value of \<^verbatim>\<open>errno\<close> after the
  lookup), \<open>peer\<close> gives the descriptor at the other end of a connection and \<open>inbox\<close> the
  bytes in flight towards a descriptor, in order.
\<close>

record world =
  replies :: "(cint \<times> cint) list"
  hosts :: "string \<Rightarrow> 32 word option \<times> cint"
  errno :: cint
  peer :: "cint \<Rightarrow> cint"
  inbox :: "cint \<Rightarrow> byte list"
  trace :: "event list"

definition log_event :: "event \<Rightarrow> world \<Rightarrow> world" where
  "log_event ev w = w\<lparr>trace := trace w @ [ev]\<rparr>"

section \<open>\<^verbatim>\<open>socket_ops\<close>\<close>

text \<open>
  \<^verbatim>\<open>socket_ops::send\<close>: \<^verbatim>\<open>(int)::send(fd, buf, size, MSG_NOSIGNAL)\<close>. The value is the
  \<^verbatim>\<open>int\<close> the wrapper hands to its caller (one call transfers fewer than \<open>2 ^ 31\<close>
  bytes, so the narrowing keeps the count); when it is positive that many of the first
  \<open>sz\<close> bytes at \<open>buf\<close> are queued for the peer. \<open>None\<close>: the call never returns.
\<close>

definition socket_ops_send :: "cint \<Rightarrow> byte list \<Rightarrow> size_t \<Rightarrow> world \<Rightarrow> cint option \<times> world" where
  "socket_ops_send fd buf sz w =
     (case replies w of
        [] \<Rightarrow> (None, w)
      | (r, e) # rs \<Rightarrow>
          (let chunk = (if 0 <s r then take (nat (sint r)) (take (unat sz) buf) else []);
               p = peer w fd
           in (Some r,
               log_event (EvSend fd sz r)
                 (w\<lparr>replies := rs, errno := e, inbox := (inbox w)(p := inbox w p @ chunk)\<rparr>))))"

text \<open>
  \<^verbatim>\<open>socket_ops::recv\<close>: \<^verbatim>\<open>(int)::recv(fd, buf, size, MSG_NOSIGNAL)\<close>. When the value is
  positive, that many of the bytes in flight (at most \<open>sz\<close>, at most what is there) are
  removed from the queue and stored at the start of \<open>buf\<close>. The memory at \<open>buf\<close> after
  the call is the second component.
\<close>

definition socket_ops_recv ::
  "cint \<Rightarrow> byte list \<Rightarrow> size_t \<Rightarrow> world \<Rightarrow> cint option \<times> byte list \<times> world" where
  "socket_ops_recv fd buf sz w =
     (case replies w of
        [] \<Rightarrow> (None, buf, w)
      | (r, e) # rs \<Rightarrow>
          (let chunk = (if 0 <s r then take (nat (sint r)) (take (unat sz) (inbox w fd)) else [])
           in (Some r,
               chunk @ drop (length chunk) buf,
               log_event (EvRecv fd sz r)
                 (w\<lparr>replies := rs, errno := e,
                    inbox := (inbox w)(fd := drop (length chunk) (inbox w fd))\<rparr>))))"

text \<open>\<^verbatim>\<open>socket_ops::shutdown\<close>: \<^verbatim>\<open>::shutdown(fd, SHUT_RDWR)\<close>, result discarded.\<close>

definition socket_ops_shutdown :: "cint \<Rightarrow> world \<Rightarrow> world" where
  "socket_ops_shutdown fd w = log_event (EvShutdown fd SHUT_RDWR) w"

text \<open>
  \<^verbatim>\<open>socket_ops::close\<close>: \<^verbatim>\<open>shutdown(fd); return ::close(fd);\<close>. Its only caller, the
  destructor of \<^verbatim>\<open>socket\<close>, discards the value, which is not drawn from the script.
\<close>

definition socket_ops_close :: "cint \<Rightarrow> world \<Rightarrow> world" where
  "socket_ops_close fd w = log_event (EvClose fd) (socket_ops_shutdown fd w)"

section \<open>\<^verbatim>\<open>network_exception\<close> and results\<close>

text \<open>\<^verbatim>\<open>network_exception()\<close> captures \<^verbatim>\<open>errno\<close> at the throw.\<close>

datatype network_exception = NetworkException (ret: cint)

definition network_exception :: "world \<Rightarrow> network_exception" where
  "network_exception w = NetworkException (errno w)"

datatype 'a outcome = Returns 'a | Throws network_exception | Blocks

section \<open>\<^verbatim>\<open>socket\<close>\<close>

record socket =
  sock :: cint
  portno :: uint16_t

text \<open>\<^verbatim>\<open>explicit socket(int fd)\<close>\<close>

definition socket_of_fd :: "cint \<Rightarrow> socket" where
  "socket_of_fd fd = \<lparr>sock = fd, portno = 0\<rparr>"

text \<open>
  \<^verbatim>\<open>socket(socket&& rhs)\<close>: \<^verbatim>\<open>sock = -1; std::swap(rhs.sock, sock);\<close>. The constructor
  does not initialise \<^verbatim>\<open>portno\<close>; \<open>junk\<close> is the indeterminate value it holds. The
  result is the moved-from object and the new one.
\<close>

definition socket_move :: "uint16_t \<Rightarrow> socket \<Rightarrow> socket \<times> socket" where
  "socket_move junk rhs =
     (let this = \<lparr>sock = - 1, portno = junk\<rparr>
      in (rhs\<lparr>sock := sock this\<rparr>, this\<lparr>sock := sock rhs\<rparr>))"

text \<open>\<^verbatim>\<open>int socket::send(const char *buffer, size_t size)\<close>\<close>

definition socket_send :: "socket \<Rightarrow> byte list \<Rightarrow> size_t \<Rightarrow> world \<Rightarrow> cint outcome \<times> world" where
  "socket_send s buffer sz w =
     (case socket_ops_send (sock s) buffer sz w of
        (None, w') \<Rightarrow> (Blocks, w')
      | (Some n, w') \<Rightarrow>
          if n <=s 0 then (Throws (network_exception w'), w') else (Returns n, w'))"

text \<open>\<^verbatim>\<open>int socket::recv(char *buffer, size_t size)\<close>\<close>

definition socket_recv ::
  "socket \<Rightarrow> byte list \<Rightarrow> size_t \<Rightarrow> world \<Rightarrow> cint outcome \<times> byte list \<times> world" where
  "socket_recv s buffer sz w =
     (case socket_ops_recv (sock s) buffer sz w of
        (None, buffer', w') \<Rightarrow> (Blocks, buffer', w')
      | (Some n, buffer', w') \<Rightarrow>
          if n <=s 0 then (Throws (network_exception w'), buffer', w')
          else (Returns n, buffer', w'))"

text \<open>
  \<^verbatim>\<open>void socket::send_all(const char *buffer, size_t size)\<close>:
  \<^verbatim>\<open>size_t off = 0; while (off != size) off += send(buffer + off, size - off);\<close>.
  The \<^verbatim>\<open>int\<close> returned by \<^verbatim>\<open>send\<close> is converted to \<^verbatim>\<open>size_t\<close> (sign extension) and
  added with wrap-around. Every iteration takes one reply of the script.
\<close>

function send_all_loop ::
  "socket \<Rightarrow> byte list \<Rightarrow> size_t \<Rightarrow> size_t \<Rightarrow> world \<Rightarrow> unit outcome \<times> world" where
  "send_all_loop s buffer sz off w =
     (if off = sz then (Returns (), w)
      else case socket_send s (drop (unat off) buffer) (sz - off) w of
             (Returns n, w') \<Rightarrow> send_all_loop s buffer sz (off + scast n) w'
           | (Throws e, w') \<Rightarrow> (Throws e, w')
           | (Blocks, w') \<Rightarrow> (Blocks, w'))"
  by pat_completeness auto
termination
  by (relation "measure (\<lambda>(s, buffer, sz, off, w). length (replies w))")
     (auto simp: socket_send_def socket_ops_send_def log_event_def Let_def
       split: list.splits if_splits)

declare send_all_loop.simps [simp del]

definition send_all :: "socket \<Rightarrow> byte list \<Rightarrow> size_t \<Rightarrow> world \<Rightarrow> unit outcome \<times> world" where
  "send_all s buffer sz w = send_all_loop s buffer sz 0 w"

text \<open>
  \<^verbatim>\<open>void socket::recv_all(char *buffer, size_t size)\<close>:
  \<^verbatim>\<open>size_t off = 0; while (off != size) off += recv(buffer + off, size - off);\<close>.
  The second component is the memory at \<open>buffer\<close> when the call ends.
\<close>

function recv_all_loop ::
  "socket \<Rightarrow> byte list \<Rightarrow> size_t \<Rightarrow> size_t \<Rightarrow> world \<Rightarrow> unit outcome \<times> byte list \<times> world" where
  "recv_all_loop s buffer sz off w =
     (if off = sz then (Returns (), buffer, w)
      else case socket_recv s (drop (unat off) buffer) (sz - off) w of
             (Returns n, tl', w') \<Rightarrow>
               recv_all_loop s (take (unat off) buffer @ tl') sz (off + scast n) w'
           | (Throws e, tl', w') \<Rightarrow> (Throws e, take (unat off) buffer @ tl', w')
           | (Blocks, tl', w') \<Rightarrow> (Blocks, take (unat off) buffer @ tl', w'))"
  by pat_completeness auto
termination
  by (relation "measure (\<lambda>(s, buffer, sz, off, w). length (replies w))")
     (auto simp: socket_recv_def socket_ops_recv_def log_event_def Let_def
       split: list.splits if_splits)

declare recv_all_loop.simps [simp del]

definition recv_all ::
  "socket \<Rightarrow> byte list \<Rightarrow> size_t \<Rightarrow> world \<Rightarrow> unit outcome \<times> byte list \<times> world" where
  "recv_all s buffer sz w = recv_all_loop s buffer sz 0 w"

text \<open>\<^verbatim>\<open>void socket::close()\<close>: \<^verbatim>\<open>socket_ops::shutdown(sock);\<close>. The object is returned as
  the call leaves it.\<close>

definition socket_close :: "socket \<Rightarrow> world \<Rightarrow> socket \<times> world" where
  "socket_close s w = (s, socket_ops_shutdown (sock s) w)"

text \<open>\<^verbatim>\<open>socket::~socket()\<close>: \<^verbatim>\<open>if (sock >= 0) socket_ops::close(sock); sock = -1;\<close>\<close>

definition socket_dtor :: "socket \<Rightarrow> world \<Rightarrow> socket \<times> world" where
  "socket_dtor s w =
     (let w' = (if 0 <=s sock s then socket_ops_close (sock s) w else w)
      in (s\<lparr>sock := - 1\<rparr>, w'))"

text \<open>
  \<^verbatim>\<open>gethostbyname(hostname)\<close>: the first address, or \<open>None\<close> for \<^verbatim>\<open>nullptr\<close>. The call
  reports its failure in \<^verbatim>\<open>h_errno\<close>; the lookup may change \<^verbatim>\<open>errno\<close> on the way, and
  the resolver says to what.
\<close>

definition os_gethostbyname :: "string \<Rightarrow> world \<Rightarrow> 32 word option \<times> world" where
  "os_gethostbyname hostname w =
     (fst (hosts w hostname),
      log_event (EvResolve hostname) (w\<lparr>errno := snd (hosts w hostname)\<rparr>))"

text \<open>\<^verbatim>\<open>::connect(sock, &addr, sizeof(addr))\<close> with the address and the port of \<open>addr\<close>.\<close>

definition os_connect :: "cint \<Rightarrow> 32 word \<Rightarrow> uint16_t \<Rightarrow> world \<Rightarrow> cint option \<times> world" where
  "os_connect fd addr port w =
     (case replies w of
        [] \<Rightarrow> (None, w)
      | (r, e) # rs \<Rightarrow>
          (Some r, log_event (EvConnect fd addr port r) (w\<lparr>replies := rs, errno := e\<rparr>)))"

text \<open>\<^verbatim>\<open>::accept(sock, &addr, &len)\<close>\<close>

definition os_accept :: "cint \<Rightarrow> world \<Rightarrow> cint option \<times> world" where
  "os_accept fd w =
     (case replies w of
        [] \<Rightarrow> (None, w)
      | (r, e) # rs \<Rightarrow> (Some r, log_event (EvAccept fd r) (w\<lparr>replies := rs, errno := e\<rparr>)))"

text \<open>
  \<^verbatim>\<open>void socket::connect(const char *hostname, uint16_t port)\<close>. The object is returned
  as the call leaves it, also when the call throws.
\<close>

definition socket_connect ::
  "socket \<Rightarrow> string \<Rightarrow> uint16_t \<Rightarrow> world \<Rightarrow> unit outcome \<times> socket \<times> world" where
  "socket_connect s hostname port w =
     (let s1 = s\<lparr>portno := port\<rparr>
      in case os_gethostbyname hostname w of
           (None, w1) \<Rightarrow> (Throws (network_exception w1), s1, w1)
         | (Some addr, w1) \<Rightarrow>
             (case os_connect (sock s1) addr (portno s1) w1 of
                (None, w2) \<Rightarrow> (Blocks, s1, w2)
              | (Some r, w2) \<Rightarrow>
                  if r <s 0 then (Throws (network_exception w2), s1, w2)
                  else (Returns (), s1, w2)))"

text \<open>
  \<^verbatim>\<open>socket socket::accept()\<close>. The returned object is the one built by
  \<^verbatim>\<open>socket(client)\<close> (the return value is constructed in place).
\<close>

definition socket_accept :: "socket \<Rightarrow> world \<Rightarrow> socket outcome \<times> world" where
  "socket_accept s w =
     (case os_accept (sock s) w of
        (None, w') \<Rightarrow> (Blocks, w')
      | (Some client, w') \<Rightarrow>
          if client <s 0 then (Throws (network_exception w'), w')
          else (Returns (socket_of_fd client), w'))"

section \<open>\<^verbatim>\<open>socket_stream\<close>\<close>

text \<open>
  The members in declaration order: \<^verbatim>\<open>sock\<close>, \<^verbatim>\<open>fbuf\<close>, \<^verbatim>\<open>stream\<close>. \<open>fbuf\<close> is the
  descriptor the \<^verbatim>\<open>stdio_filebuf\<close> was opened on, \<open>None\<close> once moved from. \<^verbatim>\<open>stream\<close>
  holds a pointer to \<^verbatim>\<open>fbuf\<close> and nothing else, and is not represented.
\<close>

record socket_stream =
  stream_sock :: socket
  fbuf :: "cint option"

text \<open>
  \<^verbatim>\<open>explicit socket_stream(net::socket&& _sock)\<close>:
  \<^verbatim>\<open>sock(std::move(_sock)), fbuf(sock.sock, std::ios::in | std::ios::out), stream(&fbuf)\<close>.
  The result is the moved-from argument, the stream and the world.
\<close>

definition socket_stream_ctor ::
  "uint16_t \<Rightarrow> socket \<Rightarrow> world \<Rightarrow> socket \<times> socket_stream \<times> world" where
  "socket_stream_ctor junk sock_arg w =
     (let (rhs, s) = socket_move junk sock_arg
      in (rhs, \<lparr>stream_sock = s, fbuf = Some (sock s)\<rparr>, log_event (EvFilebufOpen (sock s)) w))"

text \<open>
  \<^verbatim>\<open>socket_stream(socket_stream&& ss)\<close>:
  \<^verbatim>\<open>sock(std::move(ss.sock)), fbuf(std::move(ss.fbuf)), stream(&fbuf)\<close>.
\<close>

definition socket_stream_move :: "uint16_t \<Rightarrow> socket_stream \<Rightarrow> socket_stream \<times> socket_stream" where
  "socket_stream_move junk ss =
     (let (rhs, s) = socket_move junk (stream_sock ss)
      in (\<lparr>stream_sock = rhs, fbuf = None\<rparr>, \<lparr>stream_sock = s, fbuf = fbuf ss\<rparr>))"

text \<open>
  The destructor of \<^verbatim>\<open>stdio_filebuf\<close> is library code that is not part of the source. It
  writes the output still buffered to the descriptor and closes the file; a write to a
  descriptor that has been shut down raises \<^verbatim>\<open>SIGPIPE\<close>, which ends the process. What one
  run of it does is therefore a parameter: the calls it makes, and whether the process lives
  through them.
\<close>

datatype teardown = Completes "event list" | Killed "event list"

definition stdio_filebuf_dtor :: "teardown \<Rightarrow> cint option \<Rightarrow> world \<Rightarrow> bool \<times> world" where
  "stdio_filebuf_dtor td fb w =
     (case td of
        Completes evs \<Rightarrow> (True, w\<lparr>trace := trace w @ EvFilebufDtor fb # evs\<rparr>)
      | Killed evs \<Rightarrow> (False, w\<lparr>trace := trace w @ EvFilebufDtor fb # evs\<rparr>))"

text \<open>
  \<^verbatim>\<open>~socket_stream() { sock.close(); }\<close>. The body runs first; then the members are
  destroyed in the reverse of their declaration order: \<^verbatim>\<open>stream\<close> (no effect outside the
  object), \<^verbatim>\<open>fbuf\<close>, \<^verbatim>\<open>sock\<close>. The result is \<open>None\<close> when the process ends inside the
  destructor of \<^verbatim>\<open>fbuf\<close>; the destructor of \<^verbatim>\<open>sock\<close> does not run then.
\<close>

definition socket_stream_dtor ::
  "teardown \<Rightarrow> socket_stream \<Rightarrow> world \<Rightarrow> socket_stream option \<times> world" where
  "socket_stream_dtor td ss w =
     (let (s1, w1) = socket_close (stream_sock ss) w
      in case stdio_filebuf_dtor td (fbuf ss) w1 of
           (False, w2) \<Rightarrow> (None, w2)
         | (True, w2) \<Rightarrow>
             (let (s2, w3) = socket_dtor s1 w2
              in (Some \<lparr>stream_sock = s2, fbuf = None\<rparr>, w3)))"

section \<open>Notions used by the properties\<close>

text \<open>An environment with the script \<open>rs\<close>, nothing in flight, and descriptors 3 and 4
  connected to each other.\<close>

definition script_world :: "(cint \<times> cint) list \<Rightarrow> world" where
  "script_world rs =
     \<lparr>replies = rs,
      hosts = (\<lambda>h. if h = ''localhost'' then (Some 2130706433, 0) else (None, 11)),
      errno = 0, peer = (\<lambda>fd. if fd = 3 then 4 else if fd = 4 then 3 else fd),
      inbox = (\<lambda>fd. []), trace = []\<rparr>"

text \<open>A handle owns a descriptor when it holds it and its destructor would release it.\<close>

definition owns :: "socket \<Rightarrow> cint \<Rightarrow> bool" where
  "owns h fd = (0 <=s fd \<and> sock h = fd)"

text \<open>The events a call adds to the trace of \<open>w\<close>, given the world \<open>w'\<close> it ends in.\<close>

definition new_events :: "world \<Rightarrow> world \<Rightarrow> event list" where
  "new_events w w' = drop (length (trace w)) (trace w')"

fun is_shutdown :: "event \<Rightarrow> bool" where
  "is_shutdown (EvShutdown fd how) = True"
| "is_shutdown ev = False"

fun is_teardown :: "event \<Rightarrow> bool" where
  "is_teardown (EvFilebufDtor b) = True"
| "is_teardown ev = False"

definition first_index :: "(event \<Rightarrow> bool) \<Rightarrow> event list \<Rightarrow> nat" where
  "first_index P tr = length (takeWhile (\<lambda>ev. \<not> P ev) tr)"

text \<open>The first event of kind \<open>P\<close> comes before every event of kind \<open>Q\<close>.\<close>

definition precedes :: "(event \<Rightarrow> bool) \<Rightarrow> (event \<Rightarrow> bool) \<Rightarrow> event list \<Rightarrow> bool" where
  "precedes P Q tr = (first_index P tr < first_index Q tr)"

text \<open>A single attempt, as the trace records it: transferred something, or failed.\<close>

fun attempt_ok :: "event \<Rightarrow> bool" where
  "attempt_ok (EvSend fd n r) = (0 <s r)"
| "attempt_ok (EvRecv fd n r) = (0 <s r)"
| "attempt_ok ev = False"



text \<open>The number of bytes the attempts of a trace report as transferred.\<close>

fun moved :: "event \<Rightarrow> nat" where
  "moved (EvSend fd n r) = (if 0 <s r then nat (sint r) else 0)"
| "moved (EvRecv fd n r) = (if 0 <s r then nat (sint r) else 0)"
| "moved ev = 0"

definition bytes_moved :: "event list \<Rightarrow> nat" where
  "bytes_moved tr = sum_list (map moved tr)"

text \<open>
  A fragmentation of \<open>n\<close> bytes: the replies of successive attempts, each positive,
  adding up to \<open>n\<close>.
\<close>

definition frags :: "(cint \<times> cint) list \<Rightarrow> nat \<Rightarrow> bool" where
  "frags ks n = (list_all (\<lambda>k. 0 <s fst k) ks \<and> sum_list (map (\<lambda>k. nat (sint (fst k))) ks) = n)"

text \<open>
  Every attempt made while \<open>rem\<close> bytes remain is answered, succeeds and transfers
  between 1 and the remaining number of bytes.
\<close>

fun attempts_ok :: "(cint \<times> cint) list \<Rightarrow> nat \<Rightarrow> bool" where
  "attempts_ok [] rem = (rem = 0)"
| "attempts_ok ((r, e) # rs) rem =
     (if rem = 0 then True
      else 0 <s r \<and> nat (sint r) \<le> rem \<and> attempts_ok rs (rem - nat (sint r)))"


section \<open>Facts about the transfer loops\<close>

lemma unat_scast_pos:
  fixes n :: cint
  assumes "0 <s n"
  shows "unat (scast n :: size_t) = nat (sint n)"
proof -
  have p: "0 < sint n" using assms by (simp add: word_sless_alt)
  have q: "sint n < 2 ^ 31" using sint_lt [of n] by simp
  have m: "sint n mod 2 ^ 64 = sint n" using p q by simp
  have "(scast n :: size_t) = word_of_int (sint n)" by (rule scast_eq)
  then have "unat (scast n :: size_t) = unat (word_of_int (sint n) :: size_t)" by (rule arg_cong)
  also have "\<dots> = nat (sint n mod 2 ^ 64)"
    by (simp only: unat_eq_nat_uint uint_word_of_int len_num1 len_bit0 len_bit1 Suc_numeral
        mult_numeral_left_semiring_numeral mult.right_neutral arith_simps)
  finally show ?thesis using m by simp
qed

lemma pos_reply_ge1:
  fixes n :: cint
  shows "0 <s n \<Longrightarrow> 1 \<le> nat (sint n)"
  by (simp add: word_sless_alt)

lemma frags_Nil: "frags [] n = (n = 0)"
  by (auto simp: frags_def)

lemma frags_Cons:
  "frags ((r, e) # ks) n = (0 <s r \<and> nat (sint r) \<le> n \<and> frags ks (n - nat (sint r)))"
  by (auto simp: frags_def)

lemma socket_send_ok:
  assumes "replies w = (r, e) # rs" and "0 <s r"
  shows "socket_send s buf n w =
     (Returns r,
      w\<lparr>replies := rs, errno := e,
        inbox := (inbox w)(peer w (sock s) :=
                   inbox w (peer w (sock s)) @ take (nat (sint r)) (take (unat n) buf)),
        trace := trace w @ [EvSend (sock s) n r]\<rparr>)"
  using assms
  by (simp add: socket_send_def socket_ops_send_def log_event_def Let_def word_sle_eq word_sless_alt)

lemma off_step:
  fixes off sz :: size_t and r :: cint
  assumes "off \<le> sz" and "0 <s r" and "nat (sint r) \<le> unat sz - unat off"
  shows "unat (off + scast r) = unat off + nat (sint r)"
    and "off + scast r \<le> sz"
    and "off \<noteq> sz"
    and "unat (sz - off) = unat sz - unat off"
proof -
  have le: "unat off \<le> unat sz" using assms(1) by (simp add: word_le_nat_alt)
  have k: "unat (scast r :: size_t) = nat (sint r)" by (rule unat_scast_pos [OF assms(2)])
  have k1: "1 \<le> nat (sint r)" by (rule pos_reply_ge1 [OF assms(2)])
  have b: "unat off + nat (sint r) \<le> unat sz" using assms(3) le by arith
  have "unat sz < 2 ^ LENGTH(64)" by (rule unsigned_less)
  then have "unat off + unat (scast r :: size_t) < 2 ^ LENGTH(64)" using b k by arith
  then have "unat (off + scast r) = unat off + unat (scast r :: size_t)"
    by (rule unat_add_lem [THEN iffD1])
  then show u: "unat (off + scast r) = unat off + nat (sint r)"
    using k by simp
  show "off + scast r \<le> sz" using u b by (simp add: word_le_nat_alt)
  show "off \<noteq> sz" using assms(3) k1 by auto
  show "unat (sz - off) = unat sz - unat off" using assms(1) by (rule unat_sub)
qed


lemma bytes_moved_Cons: "bytes_moved (ev # tr) = moved ev + bytes_moved tr"
  by (simp add: bytes_moved_def)

lemma bytes_moved_Nil: "bytes_moved [] = 0"
  by (simp add: bytes_moved_def)

lemma send_all_loop_frags:
  assumes "replies w = ks @ rest" and "frags ks (unat sz - unat off)" and "off \<le> sz"
  shows "\<exists>w' new. send_all_loop s buffer sz off w = (Returns (), w')
           \<and> replies w' = rest \<and> peer w' = peer w
           \<and> inbox w' = (inbox w)(peer w (sock s) :=
                 inbox w (peer w (sock s)) @ take (unat sz - unat off) (drop (unat off) buffer))
           \<and> trace w' = trace w @ new \<and> length new = length ks
           \<and> bytes_moved new = unat sz - unat off \<and> list_all attempt_ok new"
  using assms
proof (induction ks arbitrary: w off)
  case Nil
  from Nil.prems(2) have "unat sz - unat off = 0" by (simp add: frags_Nil)
  with Nil.prems(3) have "unat off = unat sz" by (simp add: word_le_nat_alt)
  then have eq: "off = sz" by (rule word_unat_eq_iff [THEN iffD2])
  have "send_all_loop s buffer sz off w = (Returns (), w)"
    using eq by (simp add: send_all_loop.simps)
  moreover have "replies w = rest" using Nil.prems(1) by simp
  ultimately show ?case using eq by (simp add: bytes_moved_Nil)
next
  case (Cons k ks)
  obtain r e where k: "k = (r, e)" by (cases k)
  let ?k = "nat (sint r)"
  let ?rem = "unat sz - unat off"
  let ?p = "peer w (sock s)"
  from Cons.prems(2) k have pos: "0 <s r" and le: "?k \<le> ?rem" and fr: "frags ks (?rem - ?k)"
    by (simp_all add: frags_Cons)
  note st = off_step [OF Cons.prems(3) pos le]
  let ?w1 = "w\<lparr>replies := ks @ rest, errno := e,
        inbox := (inbox w)(?p := inbox w ?p @ take ?k (take (unat (sz - off)) (drop (unat off) buffer))),
        trace := trace w @ [EvSend (sock s) (sz - off) r]\<rparr>"
  have rw: "replies w = (r, e) # (ks @ rest)" using Cons.prems(1) k by simp
  have snd1: "socket_send s (drop (unat off) buffer) (sz - off) w = (Returns r, ?w1)"
    by (rule socket_send_ok [OF rw pos])
  have unf: "send_all_loop s buffer sz off w = send_all_loop s buffer sz (off + scast r) ?w1"
    using st(3) snd1 by (simp add: send_all_loop.simps [of s buffer sz off w])
  have fr': "frags ks (unat sz - unat (off + scast r))"
    using fr st(1) by simp
  have "replies ?w1 = ks @ rest" by simp
  from Cons.IH [OF this fr' st(2)]
  obtain w' new where
    res: "send_all_loop s buffer sz (off + scast r) ?w1 = (Returns (), w')"
    and rp: "replies w' = rest" and pr: "peer w' = peer ?w1"
    and ib: "inbox w' = (inbox ?w1)(peer ?w1 (sock s) :=
                 inbox ?w1 (peer ?w1 (sock s)) @
                 take (unat sz - unat (off + scast r)) (drop (unat (off + scast r)) buffer))"
    and tr: "trace w' = trace ?w1 @ new" and ln: "length new = length ks"
    and bm: "bytes_moved new = unat sz - unat (off + scast r)" and ok: "list_all attempt_ok new"
    by blast
  have chunk: "take ?k (take (unat (sz - off)) (drop (unat off) buffer)) = take ?k (drop (unat off) buffer)"
    using le st(4) by (simp add: min_def)
  have join: "take ?k (drop (unat off) buffer) @ take (?rem - ?k) (drop (unat off + ?k) buffer)
      = take ?rem (drop (unat off) buffer)"
  proof -
    have "take (?k + (?rem - ?k)) (drop (unat off) buffer) =
        take ?k (drop (unat off) buffer) @ take (?rem - ?k) (drop ?k (drop (unat off) buffer))"
      by (rule take_add)
    moreover have "?k + (?rem - ?k) = ?rem" using le by simp
    ultimately show ?thesis by (simp add: add.commute)
  qed
  have ib': "inbox w' = (inbox w)(?p := inbox w ?p @ take ?rem (drop (unat off) buffer))"
    using ib chunk join st(1) by simp
  have tr': "trace w' = trace w @ (EvSend (sock s) (sz - off) r # new)" using tr by simp
  have bm': "bytes_moved (EvSend (sock s) (sz - off) r # new) = ?rem"
    using bm pos le st(1) by (simp add: bytes_moved_Cons)
  have ok': "list_all attempt_ok (EvSend (sock s) (sz - off) r # new)" using ok pos by simp
  have ln': "length (EvSend (sock s) (sz - off) r # new) = length (k # ks)" using ln by simp
  have pr': "peer w' = peer w" using pr by simp
  have r0: "send_all_loop s buffer sz off w = (Returns (), w')" using unf res by simp
  show ?case
  proof (intro exI conjI)
    show "send_all_loop s buffer sz off w = (Returns (), w')" by (rule r0)
    show "replies w' = rest" by (rule rp)
    show "peer w' = peer w" by (rule pr')
    show "inbox w' = (inbox w)(?p := inbox w ?p @ take ?rem (drop (unat off) buffer))"
      by (rule ib')
    show "trace w' = trace w @ (EvSend (sock s) (sz - off) r # new)" by (rule tr')
    show "length (EvSend (sock s) (sz - off) r # new) = length (k # ks)" by (rule ln')
    show "bytes_moved (EvSend (sock s) (sz - off) r # new) = ?rem" by (rule bm')
    show "list_all attempt_ok (EvSend (sock s) (sz - off) r # new)" by (rule ok')
  qed
qed


lemma socket_recv_ok:
  assumes "replies w = (r, e) # rs" and "0 <s r"
  shows "socket_recv s buf n w =
     (Returns r,
      take (nat (sint r)) (take (unat n) (inbox w (sock s))) @
        drop (length (take (nat (sint r)) (take (unat n) (inbox w (sock s))))) buf,
      w\<lparr>replies := rs, errno := e,
        inbox := (inbox w)(sock s :=
          drop (length (take (nat (sint r)) (take (unat n) (inbox w (sock s)))))
            (inbox w (sock s))),
        trace := trace w @ [EvRecv (sock s) n r]\<rparr>)"
  using assms
  by (simp add: socket_recv_def socket_ops_recv_def log_event_def Let_def word_sle_eq word_sless_alt)

lemma store_chunk:
  fixes buf c :: "'a list"
  assumes "i + k \<le> n" and "n \<le> length buf" and "length c = k"
  shows "length (take i buf @ c @ drop k (drop i buf)) = length buf"
    and "take (i + k) (take i buf @ c @ drop k (drop i buf)) = take i buf @ c"
    and "drop n (take i buf @ c @ drop k (drop i buf)) = drop n buf"
proof -
  have li: "length (take i buf) = i" using assms(1,2) by simp
  show "length (take i buf @ c @ drop k (drop i buf)) = length buf"
    using assms li by simp
  show "take (i + k) (take i buf @ c @ drop k (drop i buf)) = take i buf @ c"
    using assms(3) li by simp
  have "drop n (take i buf @ c @ drop k (drop i buf)) = drop (n - i - k) (drop k (drop i buf))"
    using assms li by simp
  also have "\<dots> = drop n buf" using assms(1) by (simp add: add.commute)
  finally show "drop n (take i buf @ c @ drop k (drop i buf)) = drop n buf" .
qed


lemma recv_all_loop_frags:
  assumes "replies w = ks @ rest" and "frags ks (unat sz - unat off)" and "off \<le> sz"
  shows "\<exists>buffer' w' new. recv_all_loop s buffer sz off w = (Returns (), buffer', w')
           \<and> replies w' = rest
           \<and> trace w' = trace w @ new \<and> length new = length ks
           \<and> bytes_moved new = unat sz - unat off \<and> list_all attempt_ok new
           \<and> (unat sz - unat off \<le> length (inbox w (sock s)) \<and> unat sz \<le> length buffer \<longrightarrow>
                buffer' = take (unat off) buffer @ take (unat sz - unat off) (inbox w (sock s))
                            @ drop (unat sz) buffer
                \<and> inbox w' (sock s) = drop (unat sz - unat off) (inbox w (sock s)))"
  using assms
proof (induction ks arbitrary: w off buffer)
  case Nil
  from Nil.prems(2) have z: "unat sz - unat off = 0" by (simp add: frags_Nil)
  with Nil.prems(3) have "unat off = unat sz" by (simp add: word_le_nat_alt)
  then have eq: "off = sz" by (rule word_unat_eq_iff [THEN iffD2])
  have "recv_all_loop s buffer sz off w = (Returns (), buffer, w)"
    using eq by (simp add: recv_all_loop.simps)
  moreover have "replies w = rest" using Nil.prems(1) by simp
  ultimately show ?case using eq by (simp add: bytes_moved_Nil)
next
  case (Cons k ks)
  obtain r e where k: "k = (r, e)" by (cases k)
  let ?k = "nat (sint r)"
  let ?rem = "unat sz - unat off"
  let ?fd = "sock s"
  let ?I = "inbox w ?fd"
  let ?c = "take ?k (take (unat (sz - off)) ?I)"
  let ?ev = "EvRecv ?fd (sz - off) r"
  from Cons.prems(2) k have pos: "0 <s r" and le: "?k \<le> ?rem" and fr: "frags ks (?rem - ?k)"
    by (simp_all add: frags_Cons)
  note st = off_step [OF Cons.prems(3) pos le]
  let ?w1 = "w\<lparr>replies := ks @ rest, errno := e,
        inbox := (inbox w)(?fd := drop (length ?c) ?I),
        trace := trace w @ [?ev]\<rparr>"
  let ?B1 = "take (unat off) buffer @ ?c @ drop (length ?c) (drop (unat off) buffer)"
  have rw: "replies w = (r, e) # (ks @ rest)" using Cons.prems(1) k by simp
  have rcv: "socket_recv s (drop (unat off) buffer) (sz - off) w =
      (Returns r, ?c @ drop (length ?c) (drop (unat off) buffer), ?w1)"
    by (rule socket_recv_ok [OF rw pos])
  have unf: "recv_all_loop s buffer sz off w = recv_all_loop s ?B1 sz (off + scast r) ?w1"
    using st(3) rcv by (simp add: recv_all_loop.simps [of s buffer sz off w])
  have fr': "frags ks (unat sz - unat (off + scast r))"
    using fr st(1) by simp
  have "replies ?w1 = ks @ rest" by simp
  from Cons.IH [OF this fr' st(2), of ?B1]
  obtain buffer' w' new where
    res: "recv_all_loop s ?B1 sz (off + scast r) ?w1 = (Returns (), buffer', w')"
    and rp: "replies w' = rest"
    and tr: "trace w' = trace ?w1 @ new" and ln: "length new = length ks"
    and bm: "bytes_moved new = unat sz - unat (off + scast r)" and ok: "list_all attempt_ok new"
    and dat: "unat sz - unat (off + scast r) \<le> length (inbox ?w1 ?fd) \<and> unat sz \<le> length ?B1 \<longrightarrow>
                buffer' = take (unat (off + scast r)) ?B1
                            @ take (unat sz - unat (off + scast r)) (inbox ?w1 ?fd)
                            @ drop (unat sz) ?B1
                \<and> inbox w' ?fd = drop (unat sz - unat (off + scast r)) (inbox ?w1 ?fd)"
    by blast
  have r0: "recv_all_loop s buffer sz off w = (Returns (), buffer', w')" using unf res by simp
  have tr': "trace w' = trace w @ (?ev # new)" using tr by simp
  have bm': "bytes_moved (?ev # new) = ?rem"
    using bm pos le st(1) by (simp add: bytes_moved_Cons)
  have ok': "list_all attempt_ok (?ev # new)" using ok pos by simp
  have ln': "length (?ev # new) = length (k # ks)" using ln by simp
  have dat': "buffer' = take (unat off) buffer @ take ?rem ?I @ drop (unat sz) buffer
                \<and> inbox w' ?fd = drop ?rem ?I"
    if avail: "?rem \<le> length ?I" and room: "unat sz \<le> length buffer"
  proof -
    have c: "?c = take ?k ?I" using le st(4) by (simp add: min_def)
    have lc: "length ?c = ?k" using c le avail by simp
    have ik: "unat off + ?k \<le> unat sz" using le Cons.prems(3) by (simp add: word_le_nat_alt)
    note sc = store_chunk [OF ik room lc]
    have B1: "?B1 = take (unat off) buffer @ ?c @ drop ?k (drop (unat off) buffer)"
      using lc by simp
    have i1: "inbox ?w1 ?fd = drop ?k ?I" using lc by simp
    have m: "unat sz - unat (off + scast r) = ?rem - ?k" using st(1) by simp
    have p1: "unat sz - unat (off + scast r) \<le> length (inbox ?w1 ?fd)"
      unfolding i1 m using avail by simp
    have lB: "length ?B1 = length buffer" unfolding B1 by (rule sc(1))
    have p2: "unat sz \<le> length ?B1" unfolding lB by (rule room)
    from p1 p2 have p12: "unat sz - unat (off + scast r) \<le> length (inbox ?w1 ?fd) \<and> unat sz \<le> length ?B1"
      by (rule conjI)
    note bi = dat [THEN mp, OF p12]
    have t: "take (unat (off + scast r)) ?B1 = take (unat off) buffer @ ?c"
      unfolding B1 st(1) by (rule sc(2))
    have d: "drop (unat sz) ?B1 = drop (unat sz) buffer" unfolding B1 by (rule sc(3))
    have j: "?c @ take (?rem - ?k) (drop ?k ?I) = take ?rem ?I"
    proof -
      have "take (?k + (?rem - ?k)) ?I = take ?k ?I @ take (?rem - ?k) (drop ?k ?I)"
        by (rule take_add)
      moreover have "?k + (?rem - ?k) = ?rem" using le by simp
      ultimately show ?thesis unfolding c by simp
    qed
    have "buffer' = take (unat off) buffer @ (?c @ take (?rem - ?k) (drop ?k ?I)) @ drop (unat sz) buffer"
      using bi [THEN conjunct1] unfolding t d i1 m by simp
    then have b': "buffer' = take (unat off) buffer @ take ?rem ?I @ drop (unat sz) buffer"
      unfolding j .
    have "inbox w' ?fd = drop (?rem - ?k) (drop ?k ?I)"
      using bi [THEN conjunct2] unfolding i1 m .
    moreover have "?rem - ?k + ?k = ?rem" using le by simp
    ultimately have i': "inbox w' ?fd = drop ?rem ?I" by (simp only: drop_drop)
    from b' i' show ?thesis by (rule conjI)
  qed
  show ?case
  proof (intro exI conjI impI)
    show "recv_all_loop s buffer sz off w = (Returns (), buffer', w')" by (rule r0)
    show "replies w' = rest" by (rule rp)
    show "trace w' = trace w @ (?ev # new)" by (rule tr')
    show "length (?ev # new) = length (k # ks)" by (rule ln')
    show "bytes_moved (?ev # new) = ?rem" by (rule bm')
    show "list_all attempt_ok (?ev # new)" by (rule ok')
    show "buffer' = take (unat off) buffer @ take ?rem ?I @ drop (unat sz) buffer"
      if "?rem \<le> length ?I \<and> unat sz \<le> length buffer"
      using dat' that by blast
    show "inbox w' ?fd = drop ?rem ?I"
      if "?rem \<le> length ?I \<and> unat sz \<le> length buffer"
      using dat' that by blast
  qed
qed

lemma attempts_ok_frags:
  "attempts_ok rs n \<Longrightarrow> \<exists>ks rest. rs = ks @ rest \<and> frags ks n \<and> length ks \<le> n"
proof (induction rs arbitrary: n)
  case Nil
  then have "n = 0" by simp
  then show ?case by (simp add: frags_Nil)
next
  case (Cons k rs)
  obtain r e where k: "k = (r, e)" by (cases k)
  show ?case
  proof (cases "n = 0")
    case True
    then have "k # rs = [] @ (k # rs) \<and> frags [] n \<and> length ([] :: (cint \<times> cint) list) \<le> n"
      by (simp add: frags_Nil)
    then show ?thesis by blast
  next
    case False
    with Cons.prems k have pos: "0 <s r" and le: "nat (sint r) \<le> n"
      and rest: "attempts_ok rs (n - nat (sint r))" by simp_all
    from Cons.IH [OF rest] obtain ks rest' where
      rs: "rs = ks @ rest'" and fr: "frags ks (n - nat (sint r))"
      and ln: "length ks \<le> n - nat (sint r)" by blast
    have k1: "1 \<le> nat (sint r)" by (rule pos_reply_ge1 [OF pos])
    have a: "k # rs = (k # ks) @ rest'" using rs by simp
    have b: "frags (k # ks) n" using k pos le fr by (simp add: frags_Cons)
    have c: "length (k # ks) \<le> n" using ln k1 le by simp
    from a b c show ?thesis by blast
  qed
qed

lemma new_events_append: "trace w' = trace w @ new \<Longrightarrow> new_events w w' = new"
  by (simp add: new_events_def)




















section \<open>Destruction of a stream\<close>

text \<open>
  Claim C1, as the code has it. Destroying a stream first runs the destructor body, which
  shuts the descriptor down through \<^verbatim>\<open>sock.close()\<close>; the destructor of the buffering
  adapter is entered only after that. Whatever the teardown of the adapter then does, the
  first shutdown of the descriptor precedes it.
\<close>

theorem stream_dtor_order:
  "take 2 (new_events w (snd (socket_stream_dtor td ss w))) =
     [EvShutdown (sock (stream_sock ss)) SHUT_RDWR, EvFilebufDtor (fbuf ss)]
   \<and> precedes is_shutdown is_teardown (new_events w (snd (socket_stream_dtor td ss w)))"
  by (cases td)
     (simp_all add: socket_stream_dtor_def stdio_filebuf_dtor_def socket_close_def
       socket_dtor_def socket_ops_close_def socket_ops_shutdown_def log_event_def
       new_events_def Let_def precedes_def first_index_def)

text \<open>
  The order the specification gives (teardown of the buffering adapter before the shutdown
  of the descriptor) fails for the stream built over descriptor 3, here with nothing left
  to flush, so that the teardown only closes the file.
\<close>

theorem stream_dtor_order_counterexample:
  "fst (snd (socket_stream_ctor 0 (socket_of_fd 3) (script_world []))) =
     \<lparr>stream_sock = socket_of_fd 3, fbuf = Some 3\<rparr>
   \<and> take 2 (new_events (script_world [])
        (snd (socket_stream_dtor (Completes [EvClose 3])
               \<lparr>stream_sock = socket_of_fd 3, fbuf = Some 3\<rparr> (script_world [])))) =
     [EvShutdown 3 SHUT_RDWR, EvFilebufDtor (Some 3)]
   \<and> \<not> precedes is_teardown is_shutdown
        (new_events (script_world [])
          (snd (socket_stream_dtor (Completes [EvClose 3])
                 \<lparr>stream_sock = socket_of_fd 3, fbuf = Some 3\<rparr> (script_world []))))"
  by (simp add: socket_stream_ctor_def socket_move_def socket_of_fd_def
      socket_stream_dtor_def stdio_filebuf_dtor_def socket_close_def socket_dtor_def
      socket_ops_close_def socket_ops_shutdown_def log_event_def new_events_def Let_def
      precedes_def first_index_def script_world_def word_sle_eq)

section \<open>Round trip\<close>

text \<open>
  Claim C2. Let two handles be connected, with nothing in flight, and let the sender hold a
  buffer of \<open>sz\<close> bytes. Whatever the fragmentation \<open>ks\<close> of the sends and the
  fragmentation \<open>js\<close> of the receives (each a list of positive counts adding up to
  \<open>sz\<close>), \<^verbatim>\<open>send_all\<close> returns, the \<^verbatim>\<open>recv_all\<close> of \<open>sz\<close> bytes that follows on the peer
  returns, and the receiver's buffer then holds the sender's bytes. The transport is the
  queue \<open>inbox\<close>: bytes arrive in the order they were sent.
\<close>

theorem send_all_recv_all_roundtrip:
  assumes "length buffer = unat sz" and "length rbuffer = unat sz"
    and "peer w (sock a) = sock b" and "inbox w (sock b) = []"
    and "replies w = ks @ js @ rest" and "frags ks (unat sz)" and "frags js (unat sz)"
  shows "fst (send_all a buffer sz w) = Returns ()
       \<and> fst (recv_all b rbuffer sz (snd (send_all a buffer sz w))) = Returns ()
       \<and> fst (snd (recv_all b rbuffer sz (snd (send_all a buffer sz w)))) = buffer
       \<and> replies (snd (snd (recv_all b rbuffer sz (snd (send_all a buffer sz w))))) = rest"
proof -
  have fk: "frags ks (unat sz - unat (0 :: size_t))" using assms(6) by simp
  have fj: "frags js (unat sz - unat (0 :: size_t))" using assms(7) by simp
  from send_all_loop_frags [OF assms(5) fk, of a buffer] obtain w1 where
    s1: "send_all_loop a buffer sz 0 w = (Returns (), w1)"
    and r1: "replies w1 = js @ rest"
    and i1: "inbox w1 = (inbox w)(peer w (sock a) :=
                 inbox w (peer w (sock a)) @ take (unat sz - unat (0 :: size_t)) (drop (unat (0 :: size_t)) buffer))"
    by auto
  have ib: "inbox w1 (sock b) = buffer" using i1 assms(1,3,4) by simp
  from recv_all_loop_frags [OF r1 fj, of b rbuffer] obtain buffer' w2 where
    s2: "recv_all_loop b rbuffer sz 0 w1 = (Returns (), buffer', w2)"
    and r2: "replies w2 = rest"
    and dat: "unat sz - unat (0 :: size_t) \<le> length (inbox w1 (sock b)) \<and> unat sz \<le> length rbuffer \<longrightarrow>
                buffer' = take (unat (0 :: size_t)) rbuffer
                            @ take (unat sz - unat (0 :: size_t)) (inbox w1 (sock b))
                            @ drop (unat sz) rbuffer
                \<and> inbox w2 (sock b) = drop (unat sz - unat (0 :: size_t)) (inbox w1 (sock b))"
    by auto
  have "buffer' = buffer" using dat ib assms(1,2) by simp
  then show ?thesis using s1 s2 r2 by (simp add: send_all_def recv_all_def)
qed


theorem send_all_recv_all_roundtrip_witness:
  "frags [(1, 0), (3, 0)] (unat (4 :: size_t)) \<and> frags [(2, 0), (2, 0)] (unat (4 :: size_t))
   \<and> fst (send_all (socket_of_fd 3) [10, 20, 30, 40] 4
        (script_world [(1, 0), (3, 0), (2, 0), (2, 0), (9, 9)])) = Returns ()
   \<and> fst (recv_all (socket_of_fd 4) [0, 0, 0, 0] 4
        (snd (send_all (socket_of_fd 3) [10, 20, 30, 40] 4
          (script_world [(1, 0), (3, 0), (2, 0), (2, 0), (9, 9)])))) = Returns ()
   \<and> fst (snd (recv_all (socket_of_fd 4) [0, 0, 0, 0] 4
        (snd (send_all (socket_of_fd 3) [10, 20, 30, 40] 4
          (script_world [(1, 0), (3, 0), (2, 0), (2, 0), (9, 9)]))))) = [10, 20, 30, 40]"
proof -
  let ?w = "script_world [(1, 0), (3, 0), (2, 0), (2, 0), (9, 9)]"
  have h1: "length [10, 20, 30, 40 :: byte] = unat (4 :: size_t)" by simp
  have h2: "length [0, 0, 0, 0 :: byte] = unat (4 :: size_t)" by simp
  have h3: "peer ?w (sock (socket_of_fd 3)) = sock (socket_of_fd 4)"
    by (simp add: script_world_def socket_of_fd_def)
  have h4: "inbox ?w (sock (socket_of_fd 4)) = []" by (simp add: script_world_def)
  have h5: "replies ?w = [(1, 0), (3, 0)] @ [(2, 0), (2, 0)] @ [(9, 9)]"
    by (simp add: script_world_def)
  have h6: "frags [(1, 0), (3, 0)] (unat (4 :: size_t))" by (simp add: frags_def word_sless_alt)
  have h7: "frags [(2, 0), (2, 0)] (unat (4 :: size_t))" by (simp add: frags_def word_sless_alt)
  from send_all_recv_all_roundtrip [OF h1 h2 h3 h4 h5 h6 h7] h6 h7 show ?thesis by simp
qed

section \<open>Single attempts\<close>

text \<open>
  Claim C3. Let \<open>n\<close> be the value \<^verbatim>\<open>socket_ops::send\<close> hands to \<^verbatim>\<open>socket::send\<close>, and
  \<open>m\<close> the value \<^verbatim>\<open>socket_ops::recv\<close> hands to \<^verbatim>\<open>socket::recv\<close>. The attempt throws a
  \<^verbatim>\<open>network_exception\<close> carrying \<^verbatim>\<open>errno\<close> exactly when that value is at most 0 (zero
  included), and returns the value, then strictly positive, otherwise.
\<close>

theorem send_recv_once:
  "(socket_ops_send (sock s) buffer sz w = (Some n, w1) \<longrightarrow>
      socket_send s buffer sz w =
        (if sint n \<le> 0 then (Throws (NetworkException (errno w1)), w1) else (Returns n, w1)))
   \<and> (socket_ops_recv (sock t) rbuffer rsz v = (Some m, rbuffer', v1) \<longrightarrow>
      socket_recv t rbuffer rsz v =
        (if sint m \<le> 0 then (Throws (NetworkException (errno v1)), rbuffer', v1)
         else (Returns m, rbuffer', v1)))"
  by (simp add: socket_send_def socket_recv_def network_exception_def word_sle_eq)

theorem send_recv_once_witness:
  "fst (socket_ops_send 3 [1, 2, 3] 3 (script_world [(0, 32)])) = Some 0 \<and>
   fst (socket_ops_recv 4 [0, 0] 2 ((script_world [(2, 0)])\<lparr>inbox := \<lambda>fd. [7, 8, 9]\<rparr>)) = Some 2 \<and>
   fst (socket_send (socket_of_fd 3) [1, 2, 3] 3 (script_world [(0, 32)])) =
     Throws (NetworkException 32) \<and>
   fst (socket_recv (socket_of_fd 4) [0, 0] 2 ((script_world [(2, 0)])\<lparr>inbox := \<lambda>fd. [7, 8, 9]\<rparr>)) = Returns 2"
proof -
  have a0: "fst (socket_ops_send 3 [1, 2, 3] 3 (script_world [(0, 32)])) = Some 0"
    by (simp add: socket_ops_send_def script_world_def)
  have b0: "fst (socket_ops_recv 4 [0, 0] 2 ((script_world [(2, 0)])\<lparr>inbox := \<lambda>fd. [7, 8, 9]\<rparr>)) = Some 2"
    by (simp add: socket_ops_recv_def script_world_def)
  have a: "socket_ops_send (sock (socket_of_fd 3)) [1, 2, 3] 3 (script_world [(0, 32)]) =
     (Some 0, snd (socket_ops_send 3 [1, 2, 3] 3 (script_world [(0, 32)])))"
    using a0 by (simp add: prod_eq_iff socket_of_fd_def)
  have b: "socket_ops_recv (sock (socket_of_fd 4)) [0, 0] 2 ((script_world [(2, 0)])\<lparr>inbox := \<lambda>fd. [7, 8, 9]\<rparr>) =
     (Some 2, fst (snd (socket_ops_recv 4 [0, 0] 2 ((script_world [(2, 0)])\<lparr>inbox := \<lambda>fd. [7, 8, 9]\<rparr>))),
      snd (snd (socket_ops_recv 4 [0, 0] 2 ((script_world [(2, 0)])\<lparr>inbox := \<lambda>fd. [7, 8, 9]\<rparr>))))"
    using b0 by (simp add: prod_eq_iff socket_of_fd_def)
  have e: "errno (snd (socket_ops_send 3 [1, 2, 3] 3 (script_world [(0, 32)]))) = 32"
    by (simp add: socket_ops_send_def script_world_def log_event_def)
  have "fst (socket_send (socket_of_fd 3) [1, 2, 3] 3 (script_world [(0, 32)])) =
     Throws (NetworkException 32) \<and>
   fst (socket_recv (socket_of_fd 4) [0, 0] 2 ((script_world [(2, 0)])\<lparr>inbox := \<lambda>fd. [7, 8, 9]\<rparr>)) = Returns 2"
    using send_recv_once [THEN conjunct1, THEN mp, OF a]
      send_recv_once [THEN conjunct2, THEN mp, OF b] e by simp
  with a0 b0 show ?thesis by simp
qed

section \<open>A failed attempt ends the loop\<close>



section \<open>Completion\<close>

text \<open>
  Claim C5. When every attempt made while bytes remain is answered, succeeds and transfers
  between 1 and the remaining number of bytes, \<^verbatim>\<open>send_all\<close> and \<^verbatim>\<open>recv_all\<close> return
  normally after at most \<open>sz\<close> attempts, and the attempts transferred exactly \<open>sz\<close> bytes
  in all. \<^verbatim>\<open>send_all\<close> has queued exactly the first \<open>sz\<close> bytes of the buffer for the
  peer. For \<^verbatim>\<open>recv_all\<close>, when those bytes were in flight and the buffer has room for
  them, exactly the first \<open>sz\<close> bytes of the buffer have been replaced by them.
\<close>

theorem transfer_all_completes:
  "(attempts_ok (replies w) (unat sz) \<longrightarrow>
      fst (send_all s buffer sz w) = Returns ()
      \<and> bytes_moved (new_events w (snd (send_all s buffer sz w))) = unat sz
      \<and> length (new_events w (snd (send_all s buffer sz w))) \<le> unat sz
      \<and> inbox (snd (send_all s buffer sz w)) (peer w (sock s)) =
          inbox w (peer w (sock s)) @ take (unat sz) buffer)
   \<and> (attempts_ok (replies v) (unat sz) \<longrightarrow>
      fst (recv_all t rbuffer sz v) = Returns ()
      \<and> bytes_moved (new_events v (snd (snd (recv_all t rbuffer sz v)))) = unat sz
      \<and> length (new_events v (snd (snd (recv_all t rbuffer sz v)))) \<le> unat sz
      \<and> (unat sz \<le> length (inbox v (sock t)) \<and> unat sz \<le> length rbuffer \<longrightarrow>
           fst (snd (recv_all t rbuffer sz v)) =
             take (unat sz) (inbox v (sock t)) @ drop (unat sz) rbuffer))"
proof (intro conjI impI)
  assume ok: "attempts_ok (replies w) (unat sz)"
  from attempts_ok_frags [OF ok] obtain ks rest where
    rs: "replies w = ks @ rest" and fr: "frags ks (unat sz)" and ln: "length ks \<le> unat sz"
    by blast
  have fr0: "frags ks (unat sz - unat (0 :: size_t))" using fr by simp
  from send_all_loop_frags [OF rs fr0, of s buffer] obtain w' new where
    r: "send_all_loop s buffer sz 0 w = (Returns (), w')"
    and tr: "trace w' = trace w @ new" and l: "length new = length ks"
    and bm: "bytes_moved new = unat sz - unat (0 :: size_t)"
    and ib: "inbox w' = (inbox w)(peer w (sock s) :=
               inbox w (peer w (sock s)) @
               take (unat sz - unat (0 :: size_t)) (drop (unat (0 :: size_t)) buffer))"
    by auto
  have ne: "new_events w w' = new" by (rule new_events_append [OF tr])
  show "inbox (snd (send_all s buffer sz w)) (peer w (sock s)) =
          inbox w (peer w (sock s)) @ take (unat sz) buffer"
    using r ib by (simp add: send_all_def)
  show "fst (send_all s buffer sz w) = Returns ()" using r by (simp add: send_all_def)
  show "bytes_moved (new_events w (snd (send_all s buffer sz w))) = unat sz"
    using r ne bm by (simp add: send_all_def)
  show "length (new_events w (snd (send_all s buffer sz w))) \<le> unat sz"
    using r ne l ln by (simp add: send_all_def)
next
  assume ok: "attempts_ok (replies v) (unat sz)"
  from attempts_ok_frags [OF ok] obtain ks rest where
    rs: "replies v = ks @ rest" and fr: "frags ks (unat sz)" and ln: "length ks \<le> unat sz"
    by blast
  have fr0: "frags ks (unat sz - unat (0 :: size_t))" using fr by simp
  from recv_all_loop_frags [OF rs fr0, of t rbuffer] obtain buffer' v' new where
    r: "recv_all_loop t rbuffer sz 0 v = (Returns (), buffer', v')"
    and tr: "trace v' = trace v @ new" and l: "length new = length ks"
    and bm: "bytes_moved new = unat sz - unat (0 :: size_t)"
    and dat: "unat sz - unat (0 :: size_t) \<le> length (inbox v (sock t)) \<and> unat sz \<le> length rbuffer \<longrightarrow>
                buffer' = take (unat (0 :: size_t)) rbuffer
                            @ take (unat sz - unat (0 :: size_t)) (inbox v (sock t))
                            @ drop (unat sz) rbuffer
                \<and> inbox v' (sock t) = drop (unat sz - unat (0 :: size_t)) (inbox v (sock t))"
    by auto
  have ne: "new_events v v' = new" by (rule new_events_append [OF tr])
  show "fst (recv_all t rbuffer sz v) = Returns ()" using r by (simp add: recv_all_def)
  show "bytes_moved (new_events v (snd (snd (recv_all t rbuffer sz v)))) = unat sz"
    using r ne bm by (simp add: recv_all_def)
  show "length (new_events v (snd (snd (recv_all t rbuffer sz v)))) \<le> unat sz"
    using r ne l ln by (simp add: recv_all_def)
  show "fst (snd (recv_all t rbuffer sz v)) =
             take (unat sz) (inbox v (sock t)) @ drop (unat sz) rbuffer"
    if "unat sz \<le> length (inbox v (sock t)) \<and> unat sz \<le> length rbuffer"
    using r dat that by (simp add: recv_all_def)
qed

theorem transfer_all_completes_witness:
  "attempts_ok (replies (script_world [(2, 0), (1, 0)])) (unat (3 :: size_t))
   \<and> fst (send_all (socket_of_fd 3) [1, 2, 3] 3 (script_world [(2, 0), (1, 0)])) = Returns ()
   \<and> bytes_moved (new_events (script_world [(2, 0), (1, 0)])
        (snd (send_all (socket_of_fd 3) [1, 2, 3] 3 (script_world [(2, 0), (1, 0)])))) = 3
   \<and> attempts_ok (replies ((script_world [(1, 0), (2, 0)])\<lparr>inbox := \<lambda>fd. [7, 8, 9]\<rparr>))
        (unat (3 :: size_t))
   \<and> fst (recv_all (socket_of_fd 4) [0, 0, 0, 0] 3
        ((script_world [(1, 0), (2, 0)])\<lparr>inbox := \<lambda>fd. [7, 8, 9]\<rparr>)) = Returns ()
   \<and> fst (snd (recv_all (socket_of_fd 4) [0, 0, 0, 0] 3
        ((script_world [(1, 0), (2, 0)])\<lparr>inbox := \<lambda>fd. [7, 8, 9]\<rparr>))) = [7, 8, 9, 0]"
proof -
  let ?w = "script_world [(2, 0), (1, 0)]"
  let ?v = "(script_world [(1, 0), (2, 0)])\<lparr>inbox := \<lambda>fd. [7, 8, 9]\<rparr>"
  have h1: "attempts_ok (replies ?w) (unat (3 :: size_t))"
    by (simp add: script_world_def word_sless_alt)
  have h2: "attempts_ok (replies ?v) (unat (3 :: size_t))"
    by (simp add: script_world_def word_sless_alt)
  have h3: "unat (3 :: size_t) \<le> length (inbox ?v (sock (socket_of_fd 4)))
      \<and> unat (3 :: size_t) \<le> length [0, 0, 0, 0 :: byte]"
    by simp
  note t = transfer_all_completes [of ?w 3 "socket_of_fd 3" "[1, 2, 3]" ?v "socket_of_fd 4"
      "[0, 0, 0, 0]"]
  note ts = t [THEN conjunct1, THEN mp, OF h1]
  note tr = t [THEN conjunct2, THEN mp, OF h2]
  note td = tr [THEN conjunct2, THEN conjunct2, THEN conjunct2, THEN mp, OF h3]
  have d: "fst (snd (recv_all (socket_of_fd 4) [0, 0, 0, 0] 3 ?v)) = [7, 8, 9, 0]"
    using td by simp
  from h1 h2 ts tr d show ?thesis by simp
qed

section \<open>Moving and destroying a handle\<close>

text \<open>
  Claim C6. The move constructor leaves \<open>-1\<close> in the source and the descriptor of the
  source in the new handle, so the new handle owns exactly what the source owned and the
  source owns nothing; destroying the moved-from handle leaves the world as it is (no call
  is made) and has no failing path.
\<close>

theorem moved_from_inert:
  assumes "socket_move junk h = (src, dst)"
  shows "sock src = - 1 \<and> sock dst = sock h
       \<and> owns dst fd = owns h fd \<and> \<not> owns src fd
       \<and> socket_dtor src w = (src, w)"
  using assms
  by (auto simp: socket_move_def socket_dtor_def owns_def word_sle_eq Let_def)

theorem moved_from_inert_witness:
  "socket_move 9 (socket_of_fd 5) = (\<lparr>sock = - 1, portno = 0\<rparr>, \<lparr>sock = 5, portno = 9\<rparr>)
   \<and> owns \<lparr>sock = 5, portno = 9\<rparr> 5 \<and> \<not> owns \<lparr>sock = - 1, portno = 0\<rparr> 5
   \<and> socket_dtor \<lparr>sock = - 1, portno = 0\<rparr> (script_world []) =
       (\<lparr>sock = - 1, portno = 0\<rparr>, script_world [])"
proof -
  have m: "socket_move 9 (socket_of_fd 5) = (\<lparr>sock = - 1, portno = 0\<rparr>, \<lparr>sock = 5, portno = 9\<rparr>)"
    by (simp add: socket_move_def socket_of_fd_def)
  have o: "owns (socket_of_fd 5) 5"
    by (simp add: owns_def socket_of_fd_def word_sle_eq)
  show ?thesis
    using moved_from_inert [OF m, of 5 "script_world []"] m o by simp
qed

section \<open>Sending nothing\<close>

text \<open>
  Claim C7. \<^verbatim>\<open>send_all\<close> with size 0 returns normally and leaves the world untouched: no
  attempt is made, whatever the buffer.
\<close>

theorem send_all_zero: "send_all s buffer 0 w = (Returns (), w)"
  by (simp add: send_all_def send_all_loop.simps)

section \<open>Closing a handle\<close>

text \<open>
  Claim C8. \<^verbatim>\<open>close()\<close> leaves the handle as it was, descriptor included, and the only
  call it makes is one shutdown of both directions of that descriptor: the descriptor
  number is not released.
\<close>

theorem close_keeps_descriptor:
  "fst (socket_close s w) = s
   \<and> new_events w (snd (socket_close s w)) = [EvShutdown (sock s) SHUT_RDWR]"
  by (simp add: socket_close_def socket_ops_shutdown_def log_event_def new_events_def)

section \<open>Connecting\<close>

text \<open>
  Claim C9. When \<^verbatim>\<open>connect\<close> throws, whether the resolution or the system call failed,
  the handle already remembers the requested port, and its descriptor is unchanged.
\<close>

theorem connect_failure_keeps_port:
  assumes "socket_connect s hostname port w = (Throws e, s', w')"
  shows "portno s' = port \<and> sock s' = sock s"
  using assms
  by (auto simp: socket_connect_def Let_def split: prod.splits option.splits if_splits)

theorem connect_failure_keeps_port_witness:
  "fst (socket_connect (socket_of_fd 3) ''nowhere'' 8080 (script_world [])) =
     Throws (NetworkException 11)
   \<and> fst (snd (socket_connect (socket_of_fd 3) ''nowhere'' 8080 (script_world []))) =
     \<lparr>sock = 3, portno = 8080\<rparr>
   \<and> fst (socket_connect (socket_of_fd 3) ''localhost'' 8080 (script_world [(- 1, 111)])) =
     Throws (NetworkException 111)
   \<and> fst (snd (socket_connect (socket_of_fd 3) ''localhost'' 8080 (script_world [(- 1, 111)]))) =
     \<lparr>sock = 3, portno = 8080\<rparr>"
proof -
  let ?c = "socket_connect (socket_of_fd 3) ''nowhere'' 8080 (script_world [])"
  let ?d = "socket_connect (socket_of_fd 3) ''localhost'' 8080 (script_world [(- 1, 111)])"
  have c0: "fst ?c = Throws (NetworkException 11)"
    by (simp add: socket_connect_def os_gethostbyname_def script_world_def log_event_def
        network_exception_def)
  have d0: "fst ?d = Throws (NetworkException 111)"
    by (simp add: socket_connect_def os_gethostbyname_def os_connect_def script_world_def
        log_event_def network_exception_def word_sless_alt)
  have c: "?c = (Throws (NetworkException 11), fst (snd ?c), snd (snd ?c))"
    using c0 by (simp add: prod_eq_iff)
  have d: "?d = (Throws (NetworkException 111), fst (snd ?d), snd (snd ?d))"
    using d0 by (simp add: prod_eq_iff)
  have "fst (snd ?c) = \<lparr>sock = 3, portno = 8080\<rparr> \<and> fst (snd ?d) = \<lparr>sock = 3, portno = 8080\<rparr>"
    using connect_failure_keeps_port [OF c] connect_failure_keeps_port [OF d]
    by (simp add: socket_of_fd_def)
  with c0 d0 show ?thesis by simp
qed

section \<open>Accepting\<close>

text \<open>
  Claim C10. The handle that \<^verbatim>\<open>accept()\<close> returns remembers port 0, whatever port the
  listening handle remembers.
\<close>

theorem accept_port_zero:
  assumes "socket_accept s w = (Returns c, w')"
  shows "portno c = 0"
  using assms
  by (auto simp: socket_accept_def socket_of_fd_def split: prod.splits option.splits if_splits)

theorem accept_port_zero_witness:
  "fst (socket_accept \<lparr>sock = 3, portno = 43981\<rparr> (script_world [(7, 0)])) =
     Returns \<lparr>sock = 7, portno = 0\<rparr>"
proof -
  have a: "socket_accept \<lparr>sock = 3, portno = 43981\<rparr> (script_world [(7, 0)]) =
    (Returns \<lparr>sock = 7, portno = 0\<rparr>,
     snd (socket_accept \<lparr>sock = 3, portno = 43981\<rparr> (script_world [(7, 0)])))"
    by (simp add: socket_accept_def os_accept_def script_world_def socket_of_fd_def
        word_sless_alt)
  show ?thesis
    using accept_port_zero [OF a] a by (simp add: prod_eq_iff)
qed

end
